theory Spec2Isabelle
  imports Main "HOL-Library.Monad_Syntax"
begin

section \<open>Factory Method: Transport and Logistics\<close>

text \<open>
  The products \<open>Truck\<close> and \<open>Ship\<close> are classes without fields; an object of the
  hierarchy is determined by its dynamic class, so the abstract class \<open>Transport\<close> is the
  datatype of its two concrete subclasses and the virtual method \<open>deliver\<close> is a function
  by cases on it. The product that \<open>planDelivery\<close> creates is held by a
  \<open>unique_ptr\<close> local to the call and is released before the call returns, so no object
  outlives the call.
\<close>

datatype Transport = Truck | Ship

fun deliver :: "Transport \<Rightarrow> string" where
  "deliver Truck = ''Delivery by Truck''"
| "deliver Ship = ''Delivery by Ship''"

datatype Logistics = RoadLogistics | SeaLogistics

fun createTransport :: "Logistics \<Rightarrow> Transport" where
  "createTransport RoadLogistics = Truck"
| "createTransport SeaLogistics = Ship"

text \<open>The line terminator written by \<open>"\n"\<close>.\<close>

definition newline :: string where
  "newline = [CHR 0x0A]"

text \<open>
  Standard output is the text written so far; \<open>planDelivery\<close> takes it and returns it
  extended.
\<close>

definition planDelivery :: "Logistics \<Rightarrow> string \<Rightarrow> string" where
  "planDelivery c out =
     (let t = createTransport c
      in out @ ''[Factory Method] '' @ deliver t @ newline)"

section \<open>Abstract Factory: Chair and FurnitureFactory\<close>

datatype Chair = VictorianChair | ModernChair

fun type :: "Chair \<Rightarrow> string" where
  "type VictorianChair = ''Victorian Chair''"
| "type ModernChair = ''Modern Chair''"

datatype FurnitureFactory = VictorianFactory | ModernFactory

fun createChair :: "FurnitureFactory \<Rightarrow> Chair" where
  "createChair VictorianFactory = VictorianChair"
| "createChair ModernFactory = ModernChair"

definition showFurniture :: "FurnitureFactory \<Rightarrow> string \<Rightarrow> string" where
  "showFurniture factory out =
     (let c = createChair factory
      in out @ ''[Abstract Factory] Created: '' @ type c @ newline)"

section \<open>Builder: House, SimpleHouseBuilder and Director\<close>

subsection \<open>Objects and the store\<close>

text \<open>
  A \<open>House\<close> holds the vector of its part names. \<open>addPart\<close> is \<open>push_back\<close>.
\<close>

record House =
  parts :: "string list"

definition House_ctor :: House where
  "House_ctor = \<lparr>parts = []\<rparr>"

definition addPart :: "House \<Rightarrow> string \<Rightarrow> House" where
  "addPart h part = h\<lparr>parts := parts h @ [part]\<rparr>"

text \<open>
  Houses and builders are reached through pointers, and two pointers may name the same
  object, so objects live in a store and a pointer is an address. The store keeps one
  typed area per class; a cell is \<open>Some\<close> object while the object is alive and \<open>None\<close>
  once it has been destroyed. An address beyond the area has never been allocated.
\<close>

type_synonym addr = nat

record SimpleHouseBuilder =
  house :: addr

record world =
  houses :: "House option list"
  builders :: "SimpleHouseBuilder option list"

definition lookup :: "'a option list \<Rightarrow> addr \<Rightarrow> 'a option" where
  "lookup cells p = (if p < length cells then cells ! p else None)"

text \<open>
  \<open>new House()\<close> returns the address of a default-constructed House. That address names
  no object that is alive at the time of the call; the store hands out the next address it
  has not used yet.
\<close>

definition new_House :: "world \<Rightarrow> addr \<times> world" where
  "new_House w = (length (houses w), w\<lparr>houses := houses w @ [Some House_ctor]\<rparr>)"

text \<open>
  Every operation that goes through a pointer returns \<open>None\<close> when the pointer does not
  name a live object: the behaviour of the program is then undefined. \<open>delete\<close> ends the
  life of a House; the destructor of the builder uses it.
\<close>

definition delete_House :: "addr \<Rightarrow> world \<Rightarrow> world option" where
  "delete_House p w =
     (case lookup (houses w) p of
        None \<Rightarrow> None
      | Some h \<Rightarrow> Some (w\<lparr>houses := (houses w)[p := None]\<rparr>))"

definition House_addPart :: "addr \<Rightarrow> string \<Rightarrow> world \<Rightarrow> world option" where
  "House_addPart p part w =
     (case lookup (houses w) p of
        None \<Rightarrow> None
      | Some h \<Rightarrow> Some (w\<lparr>houses := (houses w)[p := Some (addPart h part)]\<rparr>))"

subsection \<open>SimpleHouseBuilder\<close>

text \<open>
  \<open>SimpleHouseBuilder\<close> is the only class that implements \<open>HouseBuilder\<close>, so a call
  through a \<open>HouseBuilder*\<close> dispatches to the methods below. Each method takes the
  address \<open>this\<close> of the builder it is called on. The constructor is given together with
  the allocation of the builder object itself.
\<close>

definition SimpleHouseBuilder_ctor :: "world \<Rightarrow> addr \<times> world" where
  "SimpleHouseBuilder_ctor w =
     (let (p, w1) = new_House w
      in (length (builders w1), w1\<lparr>builders := builders w1 @ [Some \<lparr>house = p\<rparr>]\<rparr>))"

definition SimpleHouseBuilder_dtor :: "addr \<Rightarrow> world \<Rightarrow> world option" where
  "SimpleHouseBuilder_dtor this w =
     (case lookup (builders w) this of
        None \<Rightarrow> None
      | Some b \<Rightarrow>
          delete_House (house b) w \<bind>
            (\<lambda>w1. Some (w1\<lparr>builders := (builders w1)[this := None]\<rparr>)))"

definition buildWalls :: "addr \<Rightarrow> world \<Rightarrow> world option" where
  "buildWalls this w =
     (case lookup (builders w) this of
        None \<Rightarrow> None
      | Some b \<Rightarrow> House_addPart (house b) ''Walls'' w)"

definition buildDoors :: "addr \<Rightarrow> world \<Rightarrow> world option" where
  "buildDoors this w =
     (case lookup (builders w) this of
        None \<Rightarrow> None
      | Some b \<Rightarrow> House_addPart (house b) ''Doors'' w)"

definition buildWindows :: "addr \<Rightarrow> world \<Rightarrow> world option" where
  "buildWindows this w =
     (case lookup (builders w) this of
        None \<Rightarrow> None
      | Some b \<Rightarrow> House_addPart (house b) ''Windows'' w)"

definition getResult :: "addr \<Rightarrow> world \<Rightarrow> (addr \<times> world) option" where
  "getResult this w =
     (case lookup (builders w) this of
        None \<Rightarrow> None
      | Some b \<Rightarrow>
          (let result = house b;
               (p, w1) = new_House w
           in Some (result, w1\<lparr>builders := (builders w1)[this := Some (b\<lparr>house := p\<rparr>)]\<rparr>)))"

subsection \<open>Director\<close>

text \<open>
  The Director stores a pointer to a builder. Its implicit constructor leaves the pointer
  without a value (\<open>None\<close>); calling a build operation then is undefined.
\<close>

record Director =
  builder :: "addr option"

definition Director_ctor :: Director where
  "Director_ctor = \<lparr>builder = None\<rparr>"

definition setBuilder :: "Director \<Rightarrow> addr \<Rightarrow> Director" where
  "setBuilder d b = d\<lparr>builder := Some b\<rparr>"

definition buildMinimalHouse :: "Director \<Rightarrow> world \<Rightarrow> world option" where
  "buildMinimalHouse d w =
     (case builder d of
        None \<Rightarrow> None
      | Some b \<Rightarrow> buildWalls b w \<bind> buildDoors b)"

definition buildFullHouse :: "Director \<Rightarrow> world \<Rightarrow> world option" where
  "buildFullHouse d w =
     (case builder d of
        None \<Rightarrow> None
      | Some b \<Rightarrow> buildWalls b w \<bind> buildDoors b \<bind> buildWindows b)"

subsection \<open>Sequences of calls on a builder\<close>

text \<open>
  The three build steps of the \<open>HouseBuilder\<close> interface, a call of one of them on the
  builder at \<open>this\<close>, and a sequence of such calls executed from left to right. A sequence
  stops with \<open>None\<close> as soon as one call is undefined.
\<close>

datatype build_step = Walls | Doors | Windows

fun call_step :: "addr \<Rightarrow> build_step \<Rightarrow> world \<Rightarrow> world option" where
  "call_step this Walls w = buildWalls this w"
| "call_step this Doors w = buildDoors this w"
| "call_step this Windows w = buildWindows this w"

fun call_steps :: "addr \<Rightarrow> build_step list \<Rightarrow> world \<Rightarrow> world option" where
  "call_steps this [] w = Some w"
| "call_steps this (s # ss) w = call_step this s w \<bind> call_steps this ss"

text \<open>The part name that the specification associates with each build step.\<close>

fun part_name :: "build_step \<Rightarrow> string" where
  "part_name Walls = ''Walls''"
| "part_name Doors = ''Doors''"
| "part_name Windows = ''Windows''"

text \<open>
  All four operations of the interface: a build step, or \<open>getResult\<close> with the returned
  pointer dropped. Sequences of these are every way a caller can drive a builder.
\<close>

datatype builder_call = Step build_step | GetResult

fun call :: "addr \<Rightarrow> builder_call \<Rightarrow> world \<Rightarrow> world option" where
  "call this (Step s) w = call_step this s w"
| "call this GetResult w = map_option snd (getResult this w)"

fun calls :: "addr \<Rightarrow> builder_call list \<Rightarrow> world \<Rightarrow> world option" where
  "calls this [] w = Some w"
| "calls this (c # cs) w = call this c w \<bind> calls this cs"

text \<open>The parts of the House at an address, if a House is alive there.\<close>

definition parts_at :: "world \<Rightarrow> addr \<Rightarrow> string list option" where
  "parts_at w p = map_option parts (lookup (houses w) p)"

text \<open>
  Two worlds used to state what the operations compute: the world in which the House at
  \<open>p\<close> has the parts \<open>ps\<close> and nothing else differs, and the world that \<open>getResult\<close>
  leaves behind for the builder \<open>b\<close> at \<open>this\<close>.
\<close>

definition set_parts :: "addr \<Rightarrow> string list \<Rightarrow> world \<Rightarrow> world" where
  "set_parts p ps w = w\<lparr>houses := (houses w)[p := Some \<lparr>parts = ps\<rparr>]\<rparr>"

definition extracted :: "addr \<Rightarrow> SimpleHouseBuilder \<Rightarrow> world \<Rightarrow> world" where
  "extracted this b w =
     w\<lparr>houses := houses w @ [Some House_ctor],
       builders := (builders w)[this := Some (b\<lparr>house := length (houses w)\<rparr>)]\<rparr>"

text \<open>
  The invariant of the class: the builder at \<open>this\<close> is alive and its \<open>house\<close> pointer
  names a live House.
\<close>

definition owns_live_House :: "world \<Rightarrow> addr \<Rightarrow> bool" where
  "owns_live_House w this =
     (case lookup (builders w) this of
        None \<Rightarrow> False
      | Some b \<Rightarrow> lookup (houses w) (house b) \<noteq> None)"

section \<open>Properties of the store and of the builder operations\<close>

lemma lookup_live: "lookup cells p = Some x \<Longrightarrow> p < length cells \<and> cells ! p = Some x"
  by (simp add: lookup_def split: if_splits)

lemma lookup_append_new: "lookup (cells @ [x]) (length cells) = x"
  by (simp add: lookup_def)

lemma lookup_append_old: "lookup cells p = Some x \<Longrightarrow> lookup (cells @ [y]) p = Some x"
  by (simp add: lookup_def nth_append split: if_splits)

lemma lookup_update: "lookup (cells[p := x]) q = (if q = p \<and> p < length cells then x else lookup cells q)"
  by (simp add: lookup_def)

lemma House_addPart_live:
  "lookup (houses w) p = Some h \<Longrightarrow>
   House_addPart p part w = Some (set_parts p (parts h @ [part]) w)"
  by (cases h) (simp add: House_addPart_def addPart_def set_parts_def)

lemma set_parts_builders [simp]: "builders (set_parts p ps w) = builders w"
  by (simp add: set_parts_def)

lemma set_parts_lookup_same:
  "lookup (houses w) p = Some h \<Longrightarrow> lookup (houses (set_parts p ps w)) p = Some \<lparr>parts = ps\<rparr>"
  using lookup_live [of "houses w" p h] by (simp add: set_parts_def lookup_update)

lemma set_parts_twice [simp]: "set_parts p ps' (set_parts p ps w) = set_parts p ps' w"
  by (simp add: set_parts_def)

lemma set_parts_same: "lookup (houses w) p = Some h \<Longrightarrow> set_parts p (parts h) w = w"
proof -
  assume live: "lookup (houses w) p = Some h"
  have whole: "\<lparr>parts = parts h\<rparr> = h"
    by (cases h) simp
  have "(houses w)[p := Some h] = houses w"
    using lookup_live [OF live] list_update_id [of "houses w" p] by simp
  then show ?thesis
    by (simp add: set_parts_def whole)
qed

lemma call_step_live:
  assumes "lookup (builders w) this = Some b" and "lookup (houses w) (house b) = Some h"
  shows "call_step this s w = Some (set_parts (house b) (parts h @ [part_name s]) w)"
  using assms
  by (cases s) (simp_all add: buildWalls_def buildDoors_def buildWindows_def House_addPart_live)

lemma call_steps_live:
  assumes "lookup (builders w) this = Some b" and "lookup (houses w) (house b) = Some h"
  shows "call_steps this steps w = Some (set_parts (house b) (parts h @ map part_name steps) w)"
  using assms
proof (induction steps arbitrary: w h)
  case Nil
  then show ?case by (simp add: set_parts_same)
next
  case (Cons s ss)
  let ?w1 = "set_parts (house b) (parts h @ [part_name s]) w"
  have step: "call_step this s w = Some ?w1"
    using Cons.prems by (rule call_step_live)
  have b1: "lookup (builders ?w1) this = Some b"
    using Cons.prems(1) by simp
  have h1: "lookup (houses ?w1) (house b) = Some \<lparr>parts = parts h @ [part_name s]\<rparr>"
    using Cons.prems(2) by (rule set_parts_lookup_same)
  show ?case
    using Cons.IH [OF b1 h1] step by simp
qed

lemma getResult_live:
  assumes "lookup (builders w) this = Some b"
  shows "getResult this w =
    Some (house b, w\<lparr>houses := houses w @ [Some House_ctor],
                    builders := (builders w)[this := Some (b\<lparr>house := length (houses w)\<rparr>)]\<rparr>)"
  using assms by (simp add: getResult_def new_House_def)

lemma getResult_extracted:
  "lookup (builders w) this = Some b \<Longrightarrow> getResult this w = Some (house b, extracted this b w)"
  by (simp add: getResult_live extracted_def)

lemma extracted_old_house:
  "lookup (houses w) p = Some h \<Longrightarrow> lookup (houses (extracted this b w)) p = Some h"
  by (simp add: extracted_def lookup_append_old)

lemma extracted_builder:
  "lookup (builders w) this = Some b \<Longrightarrow>
   lookup (builders (extracted this b w)) this = Some \<lparr>house = length (houses w)\<rparr>"
  using lookup_live [of "builders w" this b]
  by (cases b) (simp add: extracted_def lookup_update)

lemma extracted_new_house:
  "lookup (houses (extracted this b w)) (length (houses w)) = Some \<lparr>parts = []\<rparr>"
  by (simp add: extracted_def lookup_append_new House_ctor_def)

lemma parts_at_set_parts:
  "lookup (houses w) p = Some h \<Longrightarrow> parts_at (set_parts p ps w) p = Some ps"
  by (simp add: parts_at_def set_parts_lookup_same)

lemma build_then_getResult:
  assumes b: "lookup (builders w) this = Some b" and h: "lookup (houses w) (house b) = Some h"
  shows "call_steps this steps w \<bind> getResult this =
           Some (house b, extracted this b (set_parts (house b) (parts h @ map part_name steps) w))"
    and "parts_at (extracted this b (set_parts (house b) (parts h @ map part_name steps) w)) (house b)
           = Some (parts h @ map part_name steps)"
proof -
  let ?w1 = "set_parts (house b) (parts h @ map part_name steps) w"
  have "lookup (builders ?w1) this = Some b"
    using b by simp
  then show "call_steps this steps w \<bind> getResult this = Some (house b, extracted this b ?w1)"
    using call_steps_live [OF b h] by (simp add: getResult_extracted)
  have "lookup (houses ?w1) (house b) = Some \<lparr>parts = parts h @ map part_name steps\<rparr>"
    using h by (rule set_parts_lookup_same)
  then show "parts_at (extracted this b ?w1) (house b) = Some (parts h @ map part_name steps)"
    by (simp add: parts_at_def extracted_old_house)
qed

lemma ctor_state:
  assumes "SimpleHouseBuilder_ctor w = (this, w0)"
  shows "lookup (builders w0) this = Some \<lparr>house = length (houses w)\<rparr>"
    and "lookup (houses w0) (length (houses w)) = Some \<lparr>parts = []\<rparr>"
  using assms
  by (auto simp add: SimpleHouseBuilder_ctor_def new_House_def lookup_append_new House_ctor_def)

lemma set_parts_other_house:
  "q \<noteq> p \<Longrightarrow> lookup (houses (set_parts p ps w)) q = lookup (houses w) q"
  by (simp add: set_parts_def lookup_update)

lemma call_steps_Nil_fun: "call_steps this [] = Some"
  by (rule ext) simp

lemma call_steps_Cons_fun:
  "call_steps this (s # ss) = (\<lambda>w. call_step this s w \<bind> call_steps this ss)"
  by (rule ext) simp

lemma buildMinimalHouse_steps:
  "buildMinimalHouse (setBuilder d this) w = call_steps this [Walls, Doors] w"
  by (simp add: buildMinimalHouse_def setBuilder_def call_steps_Cons_fun call_steps_Nil_fun)

lemma buildFullHouse_steps:
  "buildFullHouse (setBuilder d this) w = call_steps this [Walls, Doors, Windows] w"
  by (simp add: buildFullHouse_def setBuilder_def call_steps_Cons_fun call_steps_Nil_fun)

lemma House_addPart_length:
  "House_addPart p part w = Some w' \<Longrightarrow> length (houses w') = length (houses w)"
  by (auto simp add: House_addPart_def split: option.splits)

lemma call_step_length:
  "call_step this s w = Some w' \<Longrightarrow> length (houses w') = length (houses w)"
  by (cases s)
     (auto simp add: buildWalls_def buildDoors_def buildWindows_def
           split: option.splits dest: House_addPart_length)

lemma getResult_length:
  "getResult this w = Some (r, w') \<Longrightarrow> length (houses w') = Suc (length (houses w))"
  by (auto simp add: getResult_def new_House_def split: option.splits)

lemma call_length:
  "call this c w = Some w' \<Longrightarrow>
   length (houses w') = length (houses w) + (if c = GetResult then 1 else 0)"
  by (cases c) (auto dest: call_step_length getResult_length)

lemma calls_length:
  "calls this cs w = Some w' \<Longrightarrow>
   length (houses w') = length (houses w) + count_list cs GetResult"
proof (induction cs arbitrary: w)
  case Nil
  then show ?case by simp
next
  case (Cons c cs)
  from Cons.prems obtain w1 where c: "call this c w = Some w1" and cs: "calls this cs w1 = Some w'"
    by (cases "call this c w") simp_all
  show ?case
    using call_length [OF c] Cons.IH [OF cs] by simp
qed

lemma calls_map_Step: "calls this (map Step steps) w = call_steps this steps w"
proof (induction steps arbitrary: w)
  case Nil
  show ?case by simp
next
  case (Cons s ss)
  show ?case
    by (cases "call_step this s w") (simp_all add: Cons.IH)
qed

lemma only_steps: "GetResult \<notin> set cs \<Longrightarrow> \<exists>steps. cs = map Step steps"
proof (induction cs)
  case Nil
  show ?case by simp
next
  case (Cons c cs)
  then obtain steps where "cs = map Step steps"
    by auto
  moreover obtain s where "c = Step s"
    using Cons.prems by (cases c) simp_all
  ultimately have "c # cs = map Step (s # steps)"
    by simp
  then show ?case by (rule exI)
qed

lemma inj_part_name: "inj part_name"
proof (rule injI)
  fix s t
  assume "part_name s = part_name t"
  then show "s = t"
    by (cases s; cases t) simp_all
qed

lemma calls_effect_determines_calls:
  assumes b: "lookup (builders w) this = Some b"
    and h: "lookup (houses w) (house b) = Some h"
    and same: "calls this cs w = call_steps this steps w"
  shows "cs = map Step steps"
proof -
  let ?target = "set_parts (house b) (parts h @ map part_name steps) w"
  have target: "calls this cs w = Some ?target"
    using same call_steps_live [OF b h] by simp
  have "length (houses ?target) = length (houses w)"
    by (simp add: set_parts_def)
  then have "count_list cs GetResult = 0"
    using calls_length [OF target] by simp
  then have "GetResult \<notin> set cs"
    by (simp add: count_list_0_iff)
  then obtain steps' where cs: "cs = map Step steps'"
    using only_steps by blast
  have "Some (set_parts (house b) (parts h @ map part_name steps') w) = Some ?target"
    using target call_steps_live [OF b h, of steps'] by (simp add: cs calls_map_Step)
  then have "lookup (houses (set_parts (house b) (parts h @ map part_name steps') w)) (house b)
               = lookup (houses ?target) (house b)"
    by simp
  then have "map part_name steps' = map part_name steps"
    by (simp add: set_parts_lookup_same [OF h])
  then have "steps' = steps"
    using inj_part_name by (simp add: inj_map_eq_map)
  then show ?thesis
    by (simp add: cs)
qed

text \<open>
  The constructor establishes the invariant of the class, and no call of the interface, on
  this builder or on another one, breaks it. So every call sequence on a constructed
  builder is defined.
\<close>

lemma owns_live_House_iff:
  "owns_live_House w this \<longleftrightarrow>
     (\<exists>b h. lookup (builders w) this = Some b \<and> lookup (houses w) (house b) = Some h)"
  by (auto simp add: owns_live_House_def split: option.splits)

lemma ctor_owns_live_House:
  assumes "SimpleHouseBuilder_ctor w = (this, w0)"
  shows "owns_live_House w0 this"
  using ctor_state [OF assms] by (simp add: owns_live_House_iff)

lemma ctor_keeps_live_House:
  assumes c: "SimpleHouseBuilder_ctor w = (this, w0)" and live: "owns_live_House w that"
  shows "owns_live_House w0 that"
proof -
  from live obtain b h where b: "lookup (builders w) that = Some b"
    and h: "lookup (houses w) (house b) = Some h"
    by (auto simp add: owns_live_House_iff)
  have w0: "w0 = w\<lparr>houses := houses w @ [Some House_ctor],
                    builders := builders w @ [Some \<lparr>house = length (houses w)\<rparr>]\<rparr>"
    using c by (simp add: SimpleHouseBuilder_ctor_def new_House_def)
  show ?thesis
    unfolding owns_live_House_iff w0 using b h by (simp add: lookup_append_old)
qed

lemma call_step_keeps_live_House:
  assumes live: "owns_live_House w this" and c: "call_step that s w = Some w'"
  shows "owns_live_House w' this"
proof -
  from live obtain b h where b: "lookup (builders w) this = Some b"
    and h: "lookup (houses w) (house b) = Some h"
    by (auto simp add: owns_live_House_iff)
  from c obtain bt where bt: "lookup (builders w) that = Some bt"
    by (cases s; cases "lookup (builders w) that")
       (simp_all add: buildWalls_def buildDoors_def buildWindows_def)
  from c bt obtain ht where ht: "lookup (houses w) (house bt) = Some ht"
    by (cases s; cases "lookup (houses w) (house bt)")
       (simp_all add: buildWalls_def buildDoors_def buildWindows_def House_addPart_def)
  have w': "w' = set_parts (house bt) (parts ht @ [part_name s]) w"
    using c call_step_live [OF bt ht, of s] by simp
  have "lookup (houses w') (house b) \<noteq> None"
    unfolding w' using h set_parts_lookup_same [OF ht]
    by (cases "house b = house bt") (simp_all add: set_parts_other_house)
  then show ?thesis
    unfolding owns_live_House_def w' using b by simp
qed

lemma getResult_keeps_live_House:
  assumes live: "owns_live_House w this" and g: "getResult that w = Some (r, w')"
  shows "owns_live_House w' this"
proof -
  from live obtain b h where b: "lookup (builders w) this = Some b"
    and h: "lookup (houses w) (house b) = Some h"
    by (auto simp add: owns_live_House_iff)
  from g obtain bt where bt: "lookup (builders w) that = Some bt"
    by (cases "lookup (builders w) that") (simp_all add: getResult_def)
  have w': "w' = extracted that bt w"
    using g getResult_extracted [OF bt] by simp
  show ?thesis
  proof (cases "this = that")
    case True
    then show ?thesis
      unfolding w' owns_live_House_iff
      using extracted_builder [OF bt] extracted_new_house [of that bt w] by simp
  next
    case False
    then have "lookup (builders w') this = Some b"
      unfolding w' using b by (simp add: extracted_def lookup_update)
    moreover have "lookup (houses w') (house b) = Some h"
      unfolding w' using h by (rule extracted_old_house)
    ultimately show ?thesis
      by (auto simp add: owns_live_House_iff)
  qed
qed

lemma call_keeps_live_House:
  assumes "owns_live_House w this" and "call that c w = Some w'"
  shows "owns_live_House w' this"
proof (cases c)
  case (Step s)
  then show ?thesis
    using assms by (auto intro: call_step_keeps_live_House)
next
  case GetResult
  then show ?thesis
    using assms by (auto intro: getResult_keeps_live_House)
qed

lemma call_defined:
  assumes "owns_live_House w this"
  shows "\<exists>w'. call this c w = Some w'"
proof -
  from assms obtain b h where b: "lookup (builders w) this = Some b"
    and h: "lookup (houses w) (house b) = Some h"
    by (auto simp add: owns_live_House_iff)
  show ?thesis
  proof (cases c)
    case (Step s)
    then show ?thesis
      using call_step_live [OF b h, of s] by simp
  next
    case GetResult
    then show ?thesis
      using getResult_extracted [OF b] by simp
  qed
qed

lemma calls_defined_and_keep_live_House:
  assumes "owns_live_House w this"
  shows "\<exists>w'. calls this cs w = Some w' \<and> owns_live_House w' this"
  using assms
proof (induction cs arbitrary: w)
  case Nil
  then show ?case by simp
next
  case (Cons c cs)
  from call_defined [OF Cons.prems] obtain w1 where c: "call this c w = Some w1"
    by blast
  have "owns_live_House w1 this"
    using Cons.prems c by (rule call_keeps_live_House)
  from Cons.IH [OF this] show ?case
    using c by simp
qed

text \<open>Writing the same line again and again.\<close>

lemma funpow_emit:
  assumes "\<And>out. f out = out @ line"
  shows "(f ^^ n) out = out @ concat (replicate n line)"
proof (induction n arbitrary: out)
  case 0
  show ?case by simp
next
  case (Suc n)
  have "(f ^^ Suc n) out = (f ^^ n) (f out)"
    by (simp add: funpow_swap1)
  also have "\<dots> = (out @ line) @ concat (replicate n line)"
    by (simp add: Suc.IH assms)
  finally show ?case by simp
qed

section \<open>The claims of the specification\<close>

text \<open>
  Claim C1. Whatever sequence of build steps is called on a SimpleHouseBuilder after its
  construction, or after a call of \<open>getResult\<close>, the House that the next \<open>getResult\<close>
  returns has exactly the names of those steps as its parts, in call order. In general,
  on a builder whose House is alive, the steps append their names, one for each call,
  behind the parts the House already has: nothing is removed or reordered.
\<close>

theorem builder_parts_in_call_order:
  "(SimpleHouseBuilder_ctor w = (this, w_start) \<longrightarrow>
      (\<exists>r w'. call_steps this steps w_start \<bind> getResult this = Some (r, w')
             \<and> parts_at w' r = Some (map part_name steps)))
 \<and> (getResult this w = Some (r_prev, w_start) \<longrightarrow>
      (\<exists>r w'. call_steps this steps w_start \<bind> getResult this = Some (r, w')
             \<and> parts_at w' r = Some (map part_name steps)))
 \<and> (lookup (builders w) this = Some b \<and> lookup (houses w) (house b) = Some h \<longrightarrow>
      (\<exists>w'. call_steps this steps w \<bind> getResult this = Some (house b, w')
             \<and> parts_at w' (house b) = Some (parts h @ map part_name steps)))"
proof (intro conjI impI)
  assume "SimpleHouseBuilder_ctor w = (this, w_start)"
  note st = ctor_state [OF this]
  have "lookup (houses w_start) (house \<lparr>house = length (houses w)\<rparr>) = Some \<lparr>parts = []\<rparr>"
    using st(2) by simp
  from build_then_getResult [OF st(1) this, of steps]
  show "\<exists>r w'. call_steps this steps w_start \<bind> getResult this = Some (r, w')
             \<and> parts_at w' r = Some (map part_name steps)"
    by auto
next
  assume gr: "getResult this w = Some (r_prev, w_start)"
  then obtain b0 where b0: "lookup (builders w) this = Some b0"
    by (auto simp add: getResult_def split: option.splits)
  have w_start: "w_start = extracted this b0 w"
    using gr getResult_extracted [OF b0] by simp
  have nb: "lookup (builders w_start) this = Some \<lparr>house = length (houses w)\<rparr>"
    unfolding w_start using b0 by (rule extracted_builder)
  have "lookup (houses w_start) (house \<lparr>house = length (houses w)\<rparr>) = Some \<lparr>parts = []\<rparr>"
    unfolding w_start by (simp add: extracted_new_house)
  from build_then_getResult [OF nb this, of steps]
  show "\<exists>r w'. call_steps this steps w_start \<bind> getResult this = Some (r, w')
             \<and> parts_at w' r = Some (map part_name steps)"
    by auto
next
  assume "lookup (builders w) this = Some b \<and> lookup (houses w) (house b) = Some h"
  then have b: "lookup (builders w) this = Some b" and h: "lookup (houses w) (house b) = Some h"
    by simp_all
  from build_then_getResult [OF b h, of steps]
  show "\<exists>w'. call_steps this steps w \<bind> getResult this = Some (house b, w')
             \<and> parts_at w' (house b) = Some (parts h @ map part_name steps)"
    by auto
qed

theorem builder_parts_in_call_order_witness:
  "SimpleHouseBuilder_ctor \<lparr>houses = [], builders = []\<rparr>
     = (0, \<lparr>houses = [Some \<lparr>parts = []\<rparr>], builders = [Some \<lparr>house = 0\<rparr>]\<rparr>)
 \<and> (\<exists>r w'. call_steps 0 [Doors, Walls, Doors]
               \<lparr>houses = [Some \<lparr>parts = []\<rparr>], builders = [Some \<lparr>house = 0\<rparr>]\<rparr> \<bind> getResult 0
             = Some (r, w')
           \<and> parts_at w' r = Some [''Doors'', ''Walls'', ''Doors''])
 \<and> getResult 0 \<lparr>houses = [Some \<lparr>parts = [''Walls'']\<rparr>], builders = [Some \<lparr>house = 0\<rparr>]\<rparr>
     = Some (0, \<lparr>houses = [Some \<lparr>parts = [''Walls'']\<rparr>, Some \<lparr>parts = []\<rparr>],
                 builders = [Some \<lparr>house = 1\<rparr>]\<rparr>)
 \<and> (\<exists>r w'. call_steps 0 [Windows, Windows]
               \<lparr>houses = [Some \<lparr>parts = [''Walls'']\<rparr>, Some \<lparr>parts = []\<rparr>],
                builders = [Some \<lparr>house = 1\<rparr>]\<rparr> \<bind> getResult 0
             = Some (r, w')
           \<and> parts_at w' r = Some [''Windows'', ''Windows''])
 \<and> lookup [Some \<lparr>house = 0\<rparr>] 0 = Some \<lparr>house = 0\<rparr>
 \<and> lookup [Some \<lparr>parts = [''Walls'']\<rparr>] 0 = Some \<lparr>parts = [''Walls'']\<rparr>
 \<and> (\<exists>w'. call_steps 0 [Doors]
               \<lparr>houses = [Some \<lparr>parts = [''Walls'']\<rparr>], builders = [Some \<lparr>house = 0\<rparr>]\<rparr> \<bind> getResult 0
             = Some (0, w')
           \<and> parts_at w' 0 = Some [''Walls'', ''Doors''])"
proof -
  let ?w0 = "\<lparr>houses = [Some \<lparr>parts = []\<rparr>], builders = [Some \<lparr>house = 0\<rparr>]\<rparr>"
  let ?w1 = "\<lparr>houses = [Some \<lparr>parts = [''Walls'']\<rparr>], builders = [Some \<lparr>house = 0\<rparr>]\<rparr>"
  let ?w2 = "\<lparr>houses = [Some \<lparr>parts = [''Walls'']\<rparr>, Some \<lparr>parts = []\<rparr>],
             builders = [Some \<lparr>house = 1\<rparr>]\<rparr>"
  have c: "SimpleHouseBuilder_ctor \<lparr>houses = [], builders = []\<rparr> = (0, ?w0)"
    by (simp add: SimpleHouseBuilder_ctor_def new_House_def House_ctor_def)
  have g: "getResult 0 ?w1 = Some (0, ?w2)"
    by (simp add: getResult_def new_House_def House_ctor_def lookup_def)
  have lb: "lookup (builders ?w1) 0 = Some \<lparr>house = 0\<rparr>"
    by (simp add: lookup_def)
  have lh: "lookup (houses ?w1) (house \<lparr>house = 0\<rparr>) = Some \<lparr>parts = [''Walls'']\<rparr>"
    by (simp add: lookup_def)
  note t1 = builder_parts_in_call_order
    [where w = "\<lparr>houses = [], builders = []\<rparr>" and this = 0 and w_start = ?w0
       and steps = "[Doors, Walls, Doors]", THEN conjunct1, rule_format, OF c]
  note t2 = builder_parts_in_call_order
    [where w = ?w1 and this = 0 and w_start = ?w2 and r_prev = 0 and steps = "[Windows, Windows]",
     THEN conjunct2, THEN conjunct1, rule_format, OF g]
  note t3 = builder_parts_in_call_order
    [where w = ?w1 and this = 0 and steps = "[Doors]" and b = "\<lparr>house = 0\<rparr>"
       and h = "\<lparr>parts = [''Walls'']\<rparr>",
     THEN conjunct2, THEN conjunct2, rule_format, OF conjI [OF lb lh]]
  show ?thesis
    using c g t1 t2 t3 by (simp add: lookup_def)
qed

text \<open>
  Claim C2. \<open>planDelivery\<close> writes the prefix \<open>[Factory Method] \<close> followed by what
  \<open>deliver\<close> returns on the product of the creator's own \<open>createTransport\<close>. For
  RoadLogistics that is \<open>Delivery by Truck\<close>, for SeaLogistics \<open>Delivery by Ship\<close>, and
  any number \<open>n\<close> of calls in a row writes the same line \<open>n\<close> times.
\<close>

theorem planDelivery_fixed_binding:
  "planDelivery c out = out @ ''[Factory Method] '' @ deliver (createTransport c) @ newline
 \<and> (planDelivery RoadLogistics ^^ n) out
       = out @ concat (replicate n (''[Factory Method] Delivery by Truck'' @ newline))
 \<and> (planDelivery SeaLogistics ^^ n) out
       = out @ concat (replicate n (''[Factory Method] Delivery by Ship'' @ newline))"
proof (intro conjI)
  show "planDelivery c out = out @ ''[Factory Method] '' @ deliver (createTransport c) @ newline"
    by (simp add: planDelivery_def)
  show "(planDelivery RoadLogistics ^^ n) out
          = out @ concat (replicate n (''[Factory Method] Delivery by Truck'' @ newline))"
    by (rule funpow_emit) (simp add: planDelivery_def)
  show "(planDelivery SeaLogistics ^^ n) out
          = out @ concat (replicate n (''[Factory Method] Delivery by Ship'' @ newline))"
    by (rule funpow_emit) (simp add: planDelivery_def)
qed

text \<open>
  Claim C3. A chair created by VictorianFactory reports \<open>Victorian Chair\<close> and a chair
  created by ModernFactory reports \<open>Modern Chair\<close>; the client \<open>showFurniture\<close>, run any
  number \<open>n\<close> of times on the same factory, reports that same description \<open>n\<close> times.
\<close>

theorem createChair_family:
  "type (createChair VictorianFactory) = ''Victorian Chair''
 \<and> type (createChair ModernFactory) = ''Modern Chair''
 \<and> (showFurniture VictorianFactory ^^ n) out
       = out @ concat (replicate n (''[Abstract Factory] Created: Victorian Chair'' @ newline))
 \<and> (showFurniture ModernFactory ^^ n) out
       = out @ concat (replicate n (''[Abstract Factory] Created: Modern Chair'' @ newline))"
proof (intro conjI)
  show "type (createChair VictorianFactory) = ''Victorian Chair''" by simp
  show "type (createChair ModernFactory) = ''Modern Chair''" by simp
  show "(showFurniture VictorianFactory ^^ n) out
          = out @ concat (replicate n (''[Abstract Factory] Created: Victorian Chair'' @ newline))"
    by (rule funpow_emit) (simp add: showFurniture_def)
  show "(showFurniture ModernFactory ^^ n) out
          = out @ concat (replicate n (''[Abstract Factory] Created: Modern Chair'' @ newline))"
    by (rule funpow_emit) (simp add: showFurniture_def)
qed

text \<open>
  Claim C4. On a builder whose House is alive, \<open>getResult\<close> returns the address \<open>r\<close> of
  that House with its parts as they are, and leaves the builder with a different House,
  which was not allocated before the call and is empty. Every build sequence that follows
  puts exactly its own part names into the new House and leaves the returned House as it
  was. The hypothesis is the invariant of the class (\<open>owns_live_House_iff\<close>), which
  holds from the construction of a builder on.
\<close>

theorem getResult_fresh_house:
  assumes b: "lookup (builders w) this = Some b"
    and h: "lookup (houses w) (house b) = Some h"
  shows "\<exists>r w1 b1.
      getResult this w = Some (r, w1) \<and> r = house b \<and> lookup (houses w1) r = Some h
    \<and> lookup (builders w1) this = Some b1
    \<and> house b1 \<noteq> r \<and> lookup (houses w) (house b1) = None
    \<and> lookup (houses w1) (house b1) = Some \<lparr>parts = []\<rparr>
    \<and> (\<forall>steps. \<exists>w2. call_steps this steps w1 = Some w2
          \<and> lookup (builders w2) this = Some b1
          \<and> parts_at w2 (house b1) = Some (map part_name steps)
          \<and> lookup (houses w2) r = Some h)"
proof -
  let ?w1 = "extracted this b w"
  let ?b1 = "\<lparr>house = length (houses w)\<rparr>"
  have g: "getResult this w = Some (house b, ?w1)"
    using b by (rule getResult_extracted)
  have old: "lookup (houses ?w1) (house b) = Some h"
    using h by (rule extracted_old_house)
  have nb: "lookup (builders ?w1) this = Some ?b1"
    using b by (rule extracted_builder)
  have distinct: "house ?b1 \<noteq> house b"
    using lookup_live [OF h] by simp
  have unallocated: "lookup (houses w) (house ?b1) = None"
    by (simp add: lookup_def)
  have empty: "lookup (houses ?w1) (house ?b1) = Some \<lparr>parts = []\<rparr>"
    by (simp add: extracted_new_house)
  have later: "\<exists>w2. call_steps this steps ?w1 = Some w2
          \<and> lookup (builders w2) this = Some ?b1
          \<and> parts_at w2 (house ?b1) = Some (map part_name steps)
          \<and> lookup (houses w2) (house b) = Some h" for steps
  proof -
    let ?w2 = "set_parts (house ?b1) (parts \<lparr>parts = []\<rparr> @ map part_name steps) ?w1"
    have "call_steps this steps ?w1 = Some ?w2"
      using nb empty by (rule call_steps_live)
    moreover have "lookup (builders ?w2) this = Some ?b1"
      using nb by simp
    moreover have "parts_at ?w2 (house ?b1) = Some (map part_name steps)"
      using parts_at_set_parts [OF empty] by simp
    moreover have "lookup (houses ?w2) (house b) = Some h"
      using distinct old by (simp add: set_parts_other_house)
    ultimately show ?thesis by blast
  qed
  show ?thesis
    using g old nb distinct unallocated empty later by blast
qed

theorem getResult_fresh_house_witness:
  "lookup (builders \<lparr>houses = [Some \<lparr>parts = [''Walls'', ''Doors'']\<rparr>],
                     builders = [Some \<lparr>house = 0\<rparr>]\<rparr>) 0 = Some \<lparr>house = 0\<rparr>
 \<and> lookup (houses \<lparr>houses = [Some \<lparr>parts = [''Walls'', ''Doors'']\<rparr>],
                   builders = [Some \<lparr>house = 0\<rparr>]\<rparr>) (house \<lparr>house = 0\<rparr>)
       = Some \<lparr>parts = [''Walls'', ''Doors'']\<rparr>
 \<and> (\<exists>r w1 b1.
      getResult 0 \<lparr>houses = [Some \<lparr>parts = [''Walls'', ''Doors'']\<rparr>],
                   builders = [Some \<lparr>house = 0\<rparr>]\<rparr> = Some (r, w1)
    \<and> r = 0 \<and> lookup (houses w1) r = Some \<lparr>parts = [''Walls'', ''Doors'']\<rparr>
    \<and> lookup (builders w1) 0 = Some b1
    \<and> house b1 \<noteq> r
    \<and> lookup (houses w1) (house b1) = Some \<lparr>parts = []\<rparr>
    \<and> (\<forall>steps. \<exists>w2. call_steps 0 steps w1 = Some w2
          \<and> lookup (builders w2) 0 = Some b1
          \<and> parts_at w2 (house b1) = Some (map part_name steps)
          \<and> lookup (houses w2) r = Some \<lparr>parts = [''Walls'', ''Doors'']\<rparr>))"
proof -
  let ?w = "\<lparr>houses = [Some \<lparr>parts = [''Walls'', ''Doors'']\<rparr>], builders = [Some \<lparr>house = 0\<rparr>]\<rparr>"
  have lb: "lookup (builders ?w) 0 = Some \<lparr>house = 0\<rparr>"
    by (simp add: lookup_def)
  have lh: "lookup (houses ?w) (house \<lparr>house = 0\<rparr>) = Some \<lparr>parts = [''Walls'', ''Doors'']\<rparr>"
    by (simp add: lookup_def)
  show ?thesis
    using lb lh getResult_fresh_house [OF lb lh] by auto
qed

text \<open>
  Claim C5. From a builder in the empty state (its House is alive and has no parts),
  \<open>buildMinimalHouse\<close> on a Director attached to the builder, followed by \<open>getResult\<close>,
  yields a House whose parts are exactly Walls, Doors.
\<close>

theorem minimal_house_parts:
  assumes b: "lookup (builders w) this = Some b"
    and h: "lookup (houses w) (house b) = Some \<lparr>parts = []\<rparr>"
  shows "\<exists>w'. buildMinimalHouse (setBuilder d this) w \<bind> getResult this = Some (house b, w')
            \<and> parts_at w' (house b) = Some [''Walls'', ''Doors'']"
  using build_then_getResult [OF b h, of "[Walls, Doors]"]
  by (simp add: buildMinimalHouse_steps)

theorem minimal_house_parts_witness:
  "lookup (builders \<lparr>houses = [Some \<lparr>parts = []\<rparr>], builders = [Some \<lparr>house = 0\<rparr>]\<rparr>) 0
     = Some \<lparr>house = 0\<rparr>
 \<and> lookup (houses \<lparr>houses = [Some \<lparr>parts = []\<rparr>], builders = [Some \<lparr>house = 0\<rparr>]\<rparr>)
      (house \<lparr>house = 0\<rparr>) = Some \<lparr>parts = []\<rparr>
 \<and> (\<exists>w'. buildMinimalHouse (setBuilder Director_ctor 0)
             \<lparr>houses = [Some \<lparr>parts = []\<rparr>], builders = [Some \<lparr>house = 0\<rparr>]\<rparr> \<bind> getResult 0
           = Some (0, w')
         \<and> parts_at w' 0 = Some [''Walls'', ''Doors''])"
proof -
  let ?w = "\<lparr>houses = [Some \<lparr>parts = []\<rparr>], builders = [Some \<lparr>house = 0\<rparr>]\<rparr>"
  have lb: "lookup (builders ?w) 0 = Some \<lparr>house = 0\<rparr>"
    by (simp add: lookup_def)
  have lh: "lookup (houses ?w) (house \<lparr>house = 0\<rparr>) = Some \<lparr>parts = []\<rparr>"
    by (simp add: lookup_def)
  show ?thesis
    using lb lh minimal_house_parts [OF lb lh, of Director_ctor] by simp
qed

text \<open>
  Claim C6. From a builder in the empty state, scenario A (\<open>buildMinimalHouse\<close>, then
  \<open>getResult\<close>) followed on the same builder by \<open>buildFullHouse\<close> and \<open>getResult\<close>
  yields a second House with parts exactly Walls, Doors, Windows. It lives at another
  address than the House of scenario A, and that first House still has the parts Walls,
  Doors afterwards.
\<close>

theorem full_house_after_minimal:
  assumes b: "lookup (builders w) this = Some b"
    and h: "lookup (houses w) (house b) = Some \<lparr>parts = []\<rparr>"
  shows "\<exists>h1 w1 h2 w2.
      buildMinimalHouse (setBuilder d this) w \<bind> getResult this = Some (h1, w1)
    \<and> parts_at w1 h1 = Some [''Walls'', ''Doors'']
    \<and> buildFullHouse (setBuilder d this) w1 \<bind> getResult this = Some (h2, w2)
    \<and> parts_at w2 h2 = Some [''Walls'', ''Doors'', ''Windows'']
    \<and> h2 \<noteq> h1
    \<and> parts_at w2 h1 = Some [''Walls'', ''Doors'']"
proof -
  let ?wa = "set_parts (house b) [''Walls'', ''Doors''] w"
  let ?w1 = "extracted this b ?wa"
  let ?b1 = "\<lparr>house = length (houses w)\<rparr>"
  let ?wb = "set_parts (house ?b1) [''Walls'', ''Doors'', ''Windows''] ?w1"
  let ?w2 = "extracted this ?b1 ?wb"
  have len: "length (houses ?wa) = length (houses w)"
    by (simp add: set_parts_def)
  have a: "buildMinimalHouse (setBuilder d this) w \<bind> getResult this = Some (house b, ?w1)"
    and a_parts: "parts_at ?w1 (house b) = Some [''Walls'', ''Doors'']"
    using build_then_getResult [OF b h, of "[Walls, Doors]"]
    by (simp_all add: buildMinimalHouse_steps)
  have b1: "lookup (builders ?w1) this = Some ?b1"
    using extracted_builder [of ?wa this b] b by (simp add: len)
  have h1: "lookup (houses ?w1) (house ?b1) = Some \<lparr>parts = []\<rparr>"
    using extracted_new_house [of this b ?wa] by (simp add: len)
  have bb: "buildFullHouse (setBuilder d this) ?w1 \<bind> getResult this = Some (house ?b1, ?w2)"
    and b_parts: "parts_at ?w2 (house ?b1) = Some [''Walls'', ''Doors'', ''Windows'']"
    using build_then_getResult [OF b1 h1, of "[Walls, Doors, Windows]"]
    by (simp_all add: buildFullHouse_steps)
  have distinct: "house ?b1 \<noteq> house b"
    using lookup_live [OF h] by simp
  have "lookup (houses ?w1) (house b) = Some \<lparr>parts = [''Walls'', ''Doors'']\<rparr>"
    using a_parts by (cases "lookup (houses ?w1) (house b)") (auto simp add: parts_at_def)
  then have "lookup (houses ?wb) (house b) = Some \<lparr>parts = [''Walls'', ''Doors'']\<rparr>"
    using distinct by (simp add: set_parts_other_house)
  then have kept: "parts_at ?w2 (house b) = Some [''Walls'', ''Doors'']"
    by (simp add: parts_at_def extracted_old_house)
  show ?thesis
    using a a_parts bb b_parts distinct kept by blast
qed

theorem full_house_after_minimal_witness:
  "lookup (builders \<lparr>houses = [Some \<lparr>parts = []\<rparr>], builders = [Some \<lparr>house = 0\<rparr>]\<rparr>) 0
     = Some \<lparr>house = 0\<rparr>
 \<and> lookup (houses \<lparr>houses = [Some \<lparr>parts = []\<rparr>], builders = [Some \<lparr>house = 0\<rparr>]\<rparr>)
      (house \<lparr>house = 0\<rparr>) = Some \<lparr>parts = []\<rparr>
 \<and> (\<exists>h1 w1 h2 w2.
      buildMinimalHouse (setBuilder Director_ctor 0)
        \<lparr>houses = [Some \<lparr>parts = []\<rparr>], builders = [Some \<lparr>house = 0\<rparr>]\<rparr> \<bind> getResult 0
        = Some (h1, w1)
    \<and> parts_at w1 h1 = Some [''Walls'', ''Doors'']
    \<and> buildFullHouse (setBuilder Director_ctor 0) w1 \<bind> getResult 0 = Some (h2, w2)
    \<and> parts_at w2 h2 = Some [''Walls'', ''Doors'', ''Windows'']
    \<and> h2 \<noteq> h1
    \<and> parts_at w2 h1 = Some [''Walls'', ''Doors''])"
proof -
  let ?w = "\<lparr>houses = [Some \<lparr>parts = []\<rparr>], builders = [Some \<lparr>house = 0\<rparr>]\<rparr>"
  have lb: "lookup (builders ?w) 0 = Some \<lparr>house = 0\<rparr>"
    by (simp add: lookup_def)
  have lh: "lookup (houses ?w) (house \<lparr>house = 0\<rparr>) = Some \<lparr>parts = []\<rparr>"
    by (simp add: lookup_def)
  show ?thesis
    using lb lh full_house_after_minimal [OF lb lh, of Director_ctor] by simp
qed

text \<open>
  Claim C7. Two calls of \<open>buildWalls\<close> before one \<open>getResult\<close> put Walls twice, one
  after the other, behind the parts the House had; with no parts before, the House
  returned has the parts Walls, Walls.
\<close>

theorem buildWalls_twice_duplicates:
  assumes b: "lookup (builders w) this = Some b"
    and h: "lookup (houses w) (house b) = Some h"
  shows "\<exists>w'. buildWalls this w \<bind> buildWalls this \<bind> getResult this = Some (house b, w')
            \<and> parts_at w' (house b) = Some (parts h @ [''Walls'', ''Walls''])"
  using build_then_getResult [OF b h, of "[Walls, Walls]"]
  by simp

theorem buildWalls_twice_duplicates_witness:
  "lookup (builders \<lparr>houses = [Some \<lparr>parts = []\<rparr>], builders = [Some \<lparr>house = 0\<rparr>]\<rparr>) 0
     = Some \<lparr>house = 0\<rparr>
 \<and> lookup (houses \<lparr>houses = [Some \<lparr>parts = []\<rparr>], builders = [Some \<lparr>house = 0\<rparr>]\<rparr>)
      (house \<lparr>house = 0\<rparr>) = Some \<lparr>parts = []\<rparr>
 \<and> (\<exists>w'. buildWalls 0 \<lparr>houses = [Some \<lparr>parts = []\<rparr>], builders = [Some \<lparr>house = 0\<rparr>]\<rparr>
             \<bind> buildWalls 0 \<bind> getResult 0 = Some (0, w')
         \<and> parts_at w' 0 = Some [''Walls'', ''Walls''])"
proof -
  let ?w = "\<lparr>houses = [Some \<lparr>parts = []\<rparr>], builders = [Some \<lparr>house = 0\<rparr>]\<rparr>"
  have lb: "lookup (builders ?w) 0 = Some \<lparr>house = 0\<rparr>"
    by (simp add: lookup_def)
  have lh: "lookup (houses ?w) (house \<lparr>house = 0\<rparr>) = Some \<lparr>parts = []\<rparr>"
    by (simp add: lookup_def)
  show ?thesis
    using lb lh buildWalls_twice_duplicates [OF lb lh] by simp
qed

text \<open>
  Claim C8. \<open>buildMinimalHouse\<close> is \<open>buildWalls\<close> then \<open>buildDoors\<close> on the attached
  builder, and \<open>buildFullHouse\<close> is \<open>buildWalls\<close>, \<open>buildDoors\<close>, \<open>buildWindows\<close>. On a builder
  whose House is alive, these are the only sequences of calls of the builder's interface
  (\<open>getResult\<close> included) with the effect of the two Director operations. In particular
  neither operation extracts or replaces the builder's House: the builder objects are
  unchanged and no House is allocated.
\<close>

theorem director_fixed_order:
  "buildMinimalHouse (setBuilder d this) w = buildWalls this w \<bind> buildDoors this
 \<and> buildFullHouse (setBuilder d this) w
       = buildWalls this w \<bind> buildDoors this \<bind> buildWindows this
 \<and> (lookup (builders w) this = Some b \<and> lookup (houses w) (house b) = Some h \<longrightarrow>
      (calls this cs w = buildMinimalHouse (setBuilder d this) w
         \<longleftrightarrow> cs = [Step Walls, Step Doors])
    \<and> (calls this cs w = buildFullHouse (setBuilder d this) w
         \<longleftrightarrow> cs = [Step Walls, Step Doors, Step Windows])
    \<and> (\<exists>w'. buildMinimalHouse (setBuilder d this) w = Some w'
            \<and> builders w' = builders w \<and> length (houses w') = length (houses w)
            \<and> parts_at w' (house b) = Some (parts h @ [''Walls'', ''Doors'']))
    \<and> (\<exists>w'. buildFullHouse (setBuilder d this) w = Some w'
            \<and> builders w' = builders w \<and> length (houses w') = length (houses w)
            \<and> parts_at w' (house b) = Some (parts h @ [''Walls'', ''Doors'', ''Windows''])))"
proof (intro conjI impI)
  show "buildMinimalHouse (setBuilder d this) w = buildWalls this w \<bind> buildDoors this"
    by (simp add: buildMinimalHouse_def setBuilder_def)
  show "buildFullHouse (setBuilder d this) w
          = buildWalls this w \<bind> buildDoors this \<bind> buildWindows this"
    by (simp add: buildFullHouse_def setBuilder_def)
next
  assume "lookup (builders w) this = Some b \<and> lookup (houses w) (house b) = Some h"
  then have b: "lookup (builders w) this = Some b" and h: "lookup (houses w) (house b) = Some h"
    by simp_all
  show "calls this cs w = buildMinimalHouse (setBuilder d this) w
          \<longleftrightarrow> cs = [Step Walls, Step Doors]"
    using calls_effect_determines_calls [OF b h, of cs "[Walls, Doors]"]
      calls_map_Step [of this "[Walls, Doors]" w]
    by (auto simp add: buildMinimalHouse_steps)
next
  assume "lookup (builders w) this = Some b \<and> lookup (houses w) (house b) = Some h"
  then have b: "lookup (builders w) this = Some b" and h: "lookup (houses w) (house b) = Some h"
    by simp_all
  show "calls this cs w = buildFullHouse (setBuilder d this) w
          \<longleftrightarrow> cs = [Step Walls, Step Doors, Step Windows]"
    using calls_effect_determines_calls [OF b h, of cs "[Walls, Doors, Windows]"]
      calls_map_Step [of this "[Walls, Doors, Windows]" w]
    by (auto simp add: buildFullHouse_steps)
next
  assume "lookup (builders w) this = Some b \<and> lookup (houses w) (house b) = Some h"
  then have b: "lookup (builders w) this = Some b" and h: "lookup (houses w) (house b) = Some h"
    by simp_all
  have "buildMinimalHouse (setBuilder d this) w
          = Some (set_parts (house b) (parts h @ map part_name [Walls, Doors]) w)"
    unfolding buildMinimalHouse_steps using b h by (rule call_steps_live)
  then show "\<exists>w'. buildMinimalHouse (setBuilder d this) w = Some w'
            \<and> builders w' = builders w \<and> length (houses w') = length (houses w)
            \<and> parts_at w' (house b) = Some (parts h @ [''Walls'', ''Doors''])"
    using parts_at_set_parts [OF h] by (simp add: set_parts_def)
next
  assume "lookup (builders w) this = Some b \<and> lookup (houses w) (house b) = Some h"
  then have b: "lookup (builders w) this = Some b" and h: "lookup (houses w) (house b) = Some h"
    by simp_all
  have "buildFullHouse (setBuilder d this) w
          = Some (set_parts (house b) (parts h @ map part_name [Walls, Doors, Windows]) w)"
    unfolding buildFullHouse_steps using b h by (rule call_steps_live)
  then show "\<exists>w'. buildFullHouse (setBuilder d this) w = Some w'
            \<and> builders w' = builders w \<and> length (houses w') = length (houses w)
            \<and> parts_at w' (house b) = Some (parts h @ [''Walls'', ''Doors'', ''Windows''])"
    using parts_at_set_parts [OF h] by (simp add: set_parts_def)
qed

theorem director_fixed_order_witness:
  "lookup (builders \<lparr>houses = [Some \<lparr>parts = []\<rparr>], builders = [Some \<lparr>house = 0\<rparr>]\<rparr>) 0
     = Some \<lparr>house = 0\<rparr>
 \<and> lookup (houses \<lparr>houses = [Some \<lparr>parts = []\<rparr>], builders = [Some \<lparr>house = 0\<rparr>]\<rparr>)
      (house \<lparr>house = 0\<rparr>) = Some \<lparr>parts = []\<rparr>
 \<and> calls 0 [Step Walls, GetResult, Step Doors]
      \<lparr>houses = [Some \<lparr>parts = []\<rparr>], builders = [Some \<lparr>house = 0\<rparr>]\<rparr>
     \<noteq> buildMinimalHouse (setBuilder Director_ctor 0)
         \<lparr>houses = [Some \<lparr>parts = []\<rparr>], builders = [Some \<lparr>house = 0\<rparr>]\<rparr>
 \<and> calls 0 [Step Walls, Step Doors, Step Windows]
      \<lparr>houses = [Some \<lparr>parts = []\<rparr>], builders = [Some \<lparr>house = 0\<rparr>]\<rparr>
     = buildFullHouse (setBuilder Director_ctor 0)
         \<lparr>houses = [Some \<lparr>parts = []\<rparr>], builders = [Some \<lparr>house = 0\<rparr>]\<rparr>
 \<and> (\<exists>w'. buildMinimalHouse (setBuilder Director_ctor 0)
             \<lparr>houses = [Some \<lparr>parts = []\<rparr>], builders = [Some \<lparr>house = 0\<rparr>]\<rparr> = Some w'
         \<and> builders w' = [Some \<lparr>house = 0\<rparr>] \<and> length (houses w') = 1
         \<and> parts_at w' 0 = Some [''Walls'', ''Doors''])"
proof -
  let ?w = "\<lparr>houses = [Some \<lparr>parts = []\<rparr>], builders = [Some \<lparr>house = 0\<rparr>]\<rparr>"
  have lb: "lookup (builders ?w) 0 = Some \<lparr>house = 0\<rparr>"
    by (simp add: lookup_def)
  have lh: "lookup (houses ?w) (house \<lparr>house = 0\<rparr>) = Some \<lparr>parts = []\<rparr>"
    by (simp add: lookup_def)
  note live = conjI [OF lb lh]
  note t = director_fixed_order
    [where w = ?w and this = 0 and d = Director_ctor and b = "\<lparr>house = 0\<rparr>"
       and h = "\<lparr>parts = []\<rparr>",
     THEN conjunct2, THEN conjunct2, rule_format, OF live]
  show ?thesis
    using lb lh
      t [where cs = "[Step Walls, GetResult, Step Doors]"]
      t [where cs = "[Step Walls, Step Doors, Step Windows]"]
    by simp
qed

text \<open>
  Claim C9. The constructor, in any store, makes a House without parts at an address
  \<open>house b0\<close> where no House was before, and the new builder points to it. \<open>getResult\<close>
  on this builder, with no build step in between, is defined and returns that very
  address; the House there still has no parts. The builder is left with another House,
  empty as well.
\<close>

theorem fresh_builder_result_empty:
  "\<exists>b0 w' b1.
      lookup (builders (snd (SimpleHouseBuilder_ctor w))) (fst (SimpleHouseBuilder_ctor w)) = Some b0
    \<and> lookup (houses w) (house b0) = None
    \<and> parts_at (snd (SimpleHouseBuilder_ctor w)) (house b0) = Some []
    \<and> getResult (fst (SimpleHouseBuilder_ctor w)) (snd (SimpleHouseBuilder_ctor w))
          = Some (house b0, w')
    \<and> parts_at w' (house b0) = Some []
    \<and> lookup (builders w') (fst (SimpleHouseBuilder_ctor w)) = Some b1
    \<and> house b1 \<noteq> house b0
    \<and> parts_at w' (house b1) = Some []"
proof -
  obtain this w0 where c: "SimpleHouseBuilder_ctor w = (this, w0)"
    by (cases "SimpleHouseBuilder_ctor w")
  let ?b0 = "\<lparr>house = length (houses w)\<rparr>"
  let ?w' = "extracted this ?b0 w0"
  note st = ctor_state [OF c]
  have made: "lookup (houses w0) (house ?b0) = Some \<lparr>parts = []\<rparr>"
    using st(2) by simp
  have len: "length (houses w0) = Suc (length (houses w))"
    using c by (auto simp add: SimpleHouseBuilder_ctor_def new_House_def)
  have unallocated: "lookup (houses w) (house ?b0) = None"
    by (simp add: lookup_def)
  have before: "parts_at w0 (house ?b0) = Some []"
    using made by (simp add: parts_at_def)
  have g: "getResult this w0 = Some (house ?b0, ?w')"
    using st(1) by (rule getResult_extracted)
  have after: "parts_at ?w' (house ?b0) = Some []"
    using extracted_old_house [OF made] by (simp add: parts_at_def)
  have nb: "lookup (builders ?w') this = Some \<lparr>house = length (houses w0)\<rparr>"
    using st(1) by (rule extracted_builder)
  have distinct: "house \<lparr>house = length (houses w0)\<rparr> \<noteq> house ?b0"
    by (simp add: len)
  have fresh: "parts_at ?w' (house \<lparr>house = length (houses w0)\<rparr>) = Some []"
    using extracted_new_house [of this ?b0 w0] by (simp add: parts_at_def)
  have "lookup (builders (snd (SimpleHouseBuilder_ctor w))) (fst (SimpleHouseBuilder_ctor w)) = Some ?b0
    \<and> lookup (houses w) (house ?b0) = None
    \<and> parts_at (snd (SimpleHouseBuilder_ctor w)) (house ?b0) = Some []
    \<and> getResult (fst (SimpleHouseBuilder_ctor w)) (snd (SimpleHouseBuilder_ctor w))
          = Some (house ?b0, ?w')
    \<and> parts_at ?w' (house ?b0) = Some []
    \<and> lookup (builders ?w') (fst (SimpleHouseBuilder_ctor w)) = Some \<lparr>house = length (houses w0)\<rparr>
    \<and> house \<lparr>house = length (houses w0)\<rparr> \<noteq> house ?b0
    \<and> parts_at ?w' (house \<lparr>house = length (houses w0)\<rparr>) = Some []"
    using st(1) unallocated before g after nb distinct fresh by (simp only: c fst_conv snd_conv simp_thms)
  then show ?thesis
    by blast
qed

text \<open>
  Claim C10. \<open>buildFullHouse\<close> computes the same as \<open>buildMinimalHouse\<close> followed by one
  call of \<open>buildWindows\<close> on the Director's builder, in every world (where one is
  undefined, so is the other). On a builder whose House is alive both are defined and add
  Walls, Doors, Windows behind the parts the House had.
\<close>

theorem full_is_minimal_then_windows:
  "buildFullHouse d w =
     buildMinimalHouse d w \<bind>
       (\<lambda>w1. case builder d of None \<Rightarrow> None | Some this \<Rightarrow> buildWindows this w1)
 \<and> buildFullHouse (setBuilder d this) w = buildMinimalHouse (setBuilder d this) w \<bind> buildWindows this
 \<and> (lookup (builders w) this = Some b \<and> lookup (houses w) (house b) = Some h \<longrightarrow>
      (\<exists>w'. buildFullHouse (setBuilder d this) w = Some w'
           \<and> buildMinimalHouse (setBuilder d this) w \<bind> buildWindows this = Some w'
           \<and> parts_at w' (house b) = Some (parts h @ [''Walls'', ''Doors'', ''Windows''])))"
proof (intro conjI impI)
  show "buildFullHouse d w =
     buildMinimalHouse d w \<bind>
       (\<lambda>w1. case builder d of None \<Rightarrow> None | Some this \<Rightarrow> buildWindows this w1)"
    by (cases "builder d") (simp_all add: buildFullHouse_def buildMinimalHouse_def)
  show same: "buildFullHouse (setBuilder d this) w
          = buildMinimalHouse (setBuilder d this) w \<bind> buildWindows this"
    by (simp add: buildFullHouse_def buildMinimalHouse_def setBuilder_def)
  assume "lookup (builders w) this = Some b \<and> lookup (houses w) (house b) = Some h"
  then have b: "lookup (builders w) this = Some b" and h: "lookup (houses w) (house b) = Some h"
    by simp_all
  let ?w' = "set_parts (house b) (parts h @ map part_name [Walls, Doors, Windows]) w"
  have full: "buildFullHouse (setBuilder d this) w = Some ?w'"
    unfolding buildFullHouse_steps using b h by (rule call_steps_live)
  moreover have "buildMinimalHouse (setBuilder d this) w \<bind> buildWindows this = Some ?w'"
    using same full by simp
  moreover have "parts_at ?w' (house b) = Some (parts h @ [''Walls'', ''Doors'', ''Windows''])"
    using parts_at_set_parts [OF h] by simp
  ultimately show "\<exists>w'. buildFullHouse (setBuilder d this) w = Some w'
           \<and> buildMinimalHouse (setBuilder d this) w \<bind> buildWindows this = Some w'
           \<and> parts_at w' (house b) = Some (parts h @ [''Walls'', ''Doors'', ''Windows''])"
    by blast
qed

theorem full_is_minimal_then_windows_witness:
  "lookup (builders \<lparr>houses = [Some \<lparr>parts = [''Walls'']\<rparr>], builders = [Some \<lparr>house = 0\<rparr>]\<rparr>) 0
     = Some \<lparr>house = 0\<rparr>
 \<and> lookup (houses \<lparr>houses = [Some \<lparr>parts = [''Walls'']\<rparr>], builders = [Some \<lparr>house = 0\<rparr>]\<rparr>)
      (house \<lparr>house = 0\<rparr>) = Some \<lparr>parts = [''Walls'']\<rparr>
 \<and> (\<exists>w'. buildFullHouse (setBuilder Director_ctor 0)
             \<lparr>houses = [Some \<lparr>parts = [''Walls'']\<rparr>], builders = [Some \<lparr>house = 0\<rparr>]\<rparr> = Some w'
         \<and> buildMinimalHouse (setBuilder Director_ctor 0)
             \<lparr>houses = [Some \<lparr>parts = [''Walls'']\<rparr>], builders = [Some \<lparr>house = 0\<rparr>]\<rparr>
             \<bind> buildWindows 0 = Some w'
         \<and> parts_at w' 0 = Some [''Walls'', ''Walls'', ''Doors'', ''Windows''])"
proof -
  let ?w = "\<lparr>houses = [Some \<lparr>parts = [''Walls'']\<rparr>], builders = [Some \<lparr>house = 0\<rparr>]\<rparr>"
  have lb: "lookup (builders ?w) 0 = Some \<lparr>house = 0\<rparr>"
    by (simp add: lookup_def)
  have lh: "lookup (houses ?w) (house \<lparr>house = 0\<rparr>) = Some \<lparr>parts = [''Walls'']\<rparr>"
    by (simp add: lookup_def)
  note t = full_is_minimal_then_windows
    [where w = ?w and this = 0 and d = Director_ctor and b = "\<lparr>house = 0\<rparr>"
       and h = "\<lparr>parts = [''Walls'']\<rparr>",
     THEN conjunct2, THEN conjunct2, rule_format, OF conjI [OF lb lh]]
  show ?thesis
    using lb lh t by simp
qed

end
